theory Spec2Isabelle
  imports Main "HOL-Library.AList"
begin

section \<open>Python strings\<close>

text \<open>
  A Python \<open>str\<close> is a sequence of code points. The model is \<^typ>\<open>string\<close>, one
  \<^typ>\<open>char\<close> per code point, which covers the code points below 256. The tab is
  \<open>CHR 0x09\<close>, the line feed \<open>CHR 0x0A\<close>, the apostrophe \<open>CHR 0x27\<close>, the double
  quote \<open>CHR 0x22\<close> and the backslash \<open>CHR 0x5C\<close>.
\<close>

abbreviation nl :: char where
  "nl \<equiv> CHR 0x0A"

text \<open>\<open>str.isspace\<close> on the code points below 256.\<close>

definition isspace :: "char \<Rightarrow> bool" where
  "isspace c = (c \<in> set [CHR 0x09, CHR 0x0A, CHR 0x0B, CHR 0x0C, CHR 0x0D,
                          CHR 0x1C, CHR 0x1D, CHR 0x1E, CHR 0x1F, CHR 0x20, CHR 0x85, CHR 0xA0])"

text \<open>\<open>string.strip()\<close>: leading and trailing whitespace is dropped.\<close>

definition strip :: "string \<Rightarrow> string" where
  "strip s = rev (dropWhile isspace (rev (dropWhile isspace s)))"

text \<open>
  \<open>string.replace(old, new)\<close>: the occurrences of \<open>old\<close> are found from left to right and do
  not overlap; an empty \<open>old\<close> matches before every character and at the end.
\<close>

fun repl :: "string \<Rightarrow> string \<Rightarrow> string \<Rightarrow> string" where
  "repl old new [] = []"
| "repl old new (c # cs) =
     (if old \<noteq> [] \<and> take (length old) (c # cs) = old
      then new @ repl old new (drop (length old - 1) cs)
      else c # repl old new cs)"

definition replace :: "string \<Rightarrow> string \<Rightarrow> string \<Rightarrow> string" where
  "replace old new s =
     (if old = [] then new @ concat (map (\<lambda>c. c # new) s) else repl old new s)"

text \<open>\<open>os.path.join(a, b)\<close> of \<open>posixpath\<close>, for two components.\<close>

definition join :: "string \<Rightarrow> string \<Rightarrow> string" where
  "join a b =
     (if take 1 b = ''/'' then b
      else if a = [] \<or> last a = CHR ''/'' then a @ b
      else a @ ''/'' @ b)"

text \<open>\<open>str(ii)\<close> for the counter of the numeric suffix, which starts at 1 and only grows.\<close>

definition digit_char :: "nat \<Rightarrow> char" where
  "digit_char d = ''0123456789'' ! d"

function str :: "nat \<Rightarrow> string" where
  "str n = (if n < 10 then [digit_char n] else str (n div 10) @ [digit_char (n mod 10)])"
  by pat_completeness auto
termination
  by (relation "measure id") auto

declare str.simps [simp del]

text \<open>The regular expression class \<open>\d\<close> on the code points below 256.\<close>

definition isdigit :: "char \<Rightarrow> bool" where
  "isdigit c = (c \<in> set ''0123456789'')"

text \<open>
  \<open>re.search('%s(\d+)$' % separator, path) is not None\<close> for a separator without regular
  expression metacharacters, which the pattern then reads literally: the path, or the path
  without its final line feed (where \<open>$\<close> matches too), ends with the separator followed by
  one or more digits.
\<close>

definition ends_sep_digits :: "string \<Rightarrow> string \<Rightarrow> bool" where
  "ends_sep_digits sep p =
     list_ex (\<lambda>k. list_all isdigit (drop (length p - k) p) \<and>
                   length sep \<le> length p - k \<and>
                   drop (length p - k - length sep) (take (length p - k) p) = sep)
       [1..<Suc (length p)]"

definition literal_search :: "string \<Rightarrow> string \<Rightarrow> bool" where
  "literal_search sep path =
     (if path \<noteq> [] \<and> last path = nl then ends_sep_digits sep (butlast path)
      else ends_sep_digits sep path)"

section \<open>Ordered dictionaries\<close>

text \<open>
  An \<open>OrderedDict\<close> (and a \<open>dict\<close>, which keeps insertion order too) is an association
  list with distinct keys: \<^const>\<open>AList.update\<close> overwrites in place or appends, as
  \<open>d[k] = v\<close> does, and \<^const>\<open>AList.delete\<close> removes the key.
\<close>

definition od_has :: "'k \<Rightarrow> ('k \<times> 'v) list \<Rightarrow> bool" where
  "od_has k d = (k \<in> set (map fst d))"

definition od_get :: "('k \<times> 'v) list \<Rightarrow> 'k \<Rightarrow> 'v \<Rightarrow> 'v" where
  "od_get d k dflt = (case map_of d k of None \<Rightarrow> dflt | Some v \<Rightarrow> v)"

definition od_set :: "'k \<Rightarrow> 'v \<Rightarrow> ('k \<times> 'v) list \<Rightarrow> ('k \<times> 'v) list" where
  "od_set k v d = AList.update k v d"

definition od_pop :: "'k \<Rightarrow> 'v \<Rightarrow> ('k \<times> 'v) list \<Rightarrow> 'v \<times> ('k \<times> 'v) list" where
  "od_pop k dflt d = (od_get d k dflt, AList.delete k d)"

section \<open>PasswordManager\<close>

text \<open>
  An entry that \<open>PasswordManagerCSV.parse\<close> builds maps string keys to values that are a
  \<open>str\<close> or \<open>None\<close>; with the extra fields it can also hold, under the key \<open>None\<close>, the
  list of the cells that \<open>csv.DictReader\<close> found beyond the header. The model keeps that
  list beside the string keys. (The key \<open>None\<close> is the last one that \<open>parse\<close> writes and
  only \<open>path\<close> is added later, so its place among the keys carries nothing.) The first step
  of \<open>clean\<close> drops every key whose value is falsy, so from there on the value of a string
  key is a \<open>str\<close>: the type \<open>entry\<close> records that.
\<close>

type_synonym raw_dict = "(string \<times> string option) list"
type_synonym str_dict = "(string \<times> string) list"
type_synonym raw_entry = "raw_dict \<times> string list option"
type_synonym entry = "str_dict \<times> string list option"

text \<open>The dictionary operations of an entry on a string key.\<close>

definition e_has :: "string \<Rightarrow> (string \<times> 'v) list \<times> 'r \<Rightarrow> bool" where
  "e_has k entry = od_has k (fst entry)"

definition e_get :: "(string \<times> 'v) list \<times> 'r \<Rightarrow> string \<Rightarrow> 'v \<Rightarrow> 'v" where
  "e_get entry k dflt = od_get (fst entry) k dflt"

definition e_set :: "string \<Rightarrow> 'v \<Rightarrow> (string \<times> 'v) list \<times> 'r \<Rightarrow> (string \<times> 'v) list \<times> 'r" where
  "e_set k v entry = (od_set k v (fst entry), snd entry)"

definition e_pop ::
  "string \<Rightarrow> 'v \<Rightarrow> (string \<times> 'v) list \<times> 'r \<Rightarrow> 'v \<times> (string \<times> 'v) list \<times> 'r" where
  "e_pop k dflt entry = (od_get (fst entry) k dflt, (AList.delete k (fst entry), snd entry))"

definition keyslist :: "string list" where
  "keyslist = [''title'', ''password'', ''login'', ''url'', ''comments'', ''group'', ''binary'']"

definition cleans :: "(string \<times> string) list" where
  "cleans = [('' '', ''_''), (''&'', ''and''), (''@'', ''At''), ([CHR 0x27], ''''),
             (''['', ''''), ('']'', ''''), (''/'', ''-'')]"

definition protocols :: "string list" where
  "protocols = [''http://'', ''https://'']"

definition invalids :: "string list" where
  "invalids = [''<'', ''>'', '':'', [CHR 0x22], ''/'', [CHR 0x5C], ''|'', ''?'', ''*'', [CHR 0x00]]"

text \<open>
  \<open>get(entry)\<close> for an entry of string keys and \<open>str\<close> values: the password line, then one
  line per remaining key except \<open>path\<close>. The entry loses its password, so the entry is
  returned with the text. (An entry that holds the key \<open>None\<close> gets one more line after
  these, with the list as Python prints it.)
\<close>

abbreviation line :: "string \<times> string \<Rightarrow> string" where
  "line \<equiv> \<lambda>(key, v). if key = ''path'' then [] else key @ '': '' @ v @ [nl]"

definition get :: "str_dict \<Rightarrow> string \<times> str_dict" where
  "get entry =
     (let (password, entry) = od_pop ''password'' '''' entry
      in (password @ [nl] @ concat (map line entry), entry))"

definition replaces :: "(string \<times> string) list \<Rightarrow> string \<Rightarrow> string" where
  "replaces caracters string = fold (\<lambda>(key, v) s. replace key v s) caracters string"

definition clean_protocol :: "string \<Rightarrow> string" where
  "clean_protocol string = replaces (zip protocols (replicate (length protocols) '''')) string"

definition clean_group :: "string \<Rightarrow> string \<Rightarrow> string" where
  "clean_group sep string =
     replaces (od_set [CHR 0x5C] ''/'' (od_set ''/'' ''/''
                 (zip invalids (replicate (length invalids) sep)))) string"

definition convert :: "string \<Rightarrow> string \<Rightarrow> string" where
  "convert sep string = replaces (zip invalids (replicate (length invalids) sep)) string"

definition clean_cmdline :: "string \<Rightarrow> string" where
  "clean_cmdline string = replaces cleans (strip string)"

text \<open>\<open>_create_path\<close> returns the path; the entry loses its title.\<close>

definition create_path :: "string \<Rightarrow> bool \<Rightarrow> bool \<Rightarrow> entry \<Rightarrow> string \<Rightarrow> string \<times> entry" where
  "create_path sep cl cv entry path =
     (let (title, path) =
            (case find (\<lambda>key. e_has key entry) [''title'', ''login'', ''url''] of
               None \<Rightarrow> ('''', path)
             | Some key \<Rightarrow>
                 (let title = clean_protocol (e_get entry key '''');
                      title = (if cl then clean_cmdline title else title);
                      title = (if cv then convert sep title else title)
                  in (title, join path title)));
          path = (if title = '''' then join path ''notitle'' else path)
      in (path, snd (e_pop ''title'' '''' entry)))"

definition path_of :: "entry \<Rightarrow> string" where
  "path_of entry = e_get entry ''path'' ''''"

text \<open>
  \<open>_duplicate_paths\<close>: the indices of the entries are grouped by path, in the order the
  paths are first met, and every entry of a group of two or more gets a new path. The
  indices come from \<open>enumerate(self.data)\<close>, so \<open>self.data[idx]\<close> is always in range.
\<close>

definition duplicated :: "entry list \<Rightarrow> (string \<times> nat list) list" where
  "duplicated data =
     fold (\<lambda>(idx, entry) d. od_set (path_of entry) (od_get d (path_of entry) [] @ [idx]) d)
       (enumerate 0 data) []"

definition renew_path ::
  "string \<Rightarrow> bool \<Rightarrow> bool \<Rightarrow> string \<Rightarrow> nat \<Rightarrow> entry list \<Rightarrow> entry list" where
  "renew_path sep cl cv path idx data =
     (let (p, entry) = create_path sep cl cv (data ! idx) path
      in data[idx := e_set ''path'' p entry])"

definition duplicate_paths :: "string \<Rightarrow> bool \<Rightarrow> bool \<Rightarrow> entry list \<Rightarrow> entry list" where
  "duplicate_paths sep cl cv data =
     fold (\<lambda>(path, idxs) data.
             if length idxs > 1 then fold (renew_path sep cl cv path) idxs data else data)
       (duplicated data) data"

text \<open>
  The \<open>while\<close> loop of \<open>_duplicate_numerise\<close>. It need not end, so it is a partial function:
  \<open>None\<close> is the loop that runs forever. The parameter \<open>search\<close> is
  \<open>re.search('%s(\d+)$' % self.separator, path) is not None\<close>; the separator goes into the
  pattern as it is, so what the pattern means depends on the separator, and
  \<^const>\<open>literal_search\<close> is its meaning for a separator without metacharacters.
\<close>

partial_function (option) numerise_while ::
  "(string \<Rightarrow> bool) \<Rightarrow> string \<Rightarrow> string list \<Rightarrow> string \<Rightarrow> nat \<Rightarrow> string option" where
  "numerise_while search sep seen path ii =
     (if path \<in> set seen
      then (if \<not> search path
            then numerise_while search sep seen (path @ sep @ str ii) ii
            else numerise_while search sep seen
                   (replace (sep @ str ii) (sep @ str (ii + 1)) path) (ii + 1))
      else Some path)"

declare numerise_while.simps [code]

fun numerise_for ::
  "(string \<Rightarrow> bool) \<Rightarrow> string \<Rightarrow> string list \<Rightarrow> entry list \<Rightarrow> entry list option" where
  "numerise_for search sep seen [] = Some []"
| "numerise_for search sep seen (entry # rest) =
     (let path = path_of entry
      in if path \<in> set seen
         then (case numerise_while search sep seen path 1 of
                 None \<Rightarrow> None
               | Some path \<Rightarrow>
                   map_option ((#) (e_set ''path'' path entry))
                     (numerise_for search sep (seen @ [path]) rest))
         else map_option ((#) entry) (numerise_for search sep (seen @ [path]) rest))"

definition duplicate_numerise ::
  "(string \<Rightarrow> bool) \<Rightarrow> string \<Rightarrow> entry list \<Rightarrow> entry list option" where
  "duplicate_numerise search sep data = numerise_for search sep [] data"

text \<open>
  The keys with a falsy value are removed: a string key whose value is \<open>None\<close> or the empty
  string, and the key \<open>None\<close> if its list is empty.
\<close>

definition remove_unused :: "raw_entry \<Rightarrow> entry" where
  "remove_unused entry =
     (List.map_filter (\<lambda>(k, v). case v of None \<Rightarrow> None
                                 | Some s \<Rightarrow> if s = [] then None else Some (k, s)) (fst entry),
      (case snd entry of None \<Rightarrow> None | Some cells \<Rightarrow> if cells = [] then None else Some cells))"

text \<open>The body of the first loop of \<open>clean\<close>.\<close>

definition clean_entry :: "string \<Rightarrow> bool \<Rightarrow> bool \<Rightarrow> raw_entry \<Rightarrow> entry" where
  "clean_entry sep cl cv entry =
     (let entry = remove_unused entry;
          (group, entry) = e_pop ''group'' '''' entry;
          path = clean_group sep (clean_protocol group);
          (path, entry) = create_path sep cl cv entry path
      in e_set ''path'' path entry)"

definition clean ::
  "(string \<Rightarrow> bool) \<Rightarrow> string \<Rightarrow> bool \<Rightarrow> bool \<Rightarrow> raw_entry list \<Rightarrow> entry list option" where
  "clean search sep cl cv data =
     duplicate_numerise search sep (duplicate_paths sep cl cv (map (clean_entry sep cl cv) data))"

section \<open>PasswordManagerCSV\<close>

datatype error = FormatError | TypeError

text \<open>
  \<open>_checkformat(fieldnames)\<close> over \<open>self.keys.values()\<close>. \<open>reader.fieldnames\<close> is \<open>None\<close>
  for a source without a first row, and then the test \<open>csvkey not in fieldnames\<close> raises
  \<open>TypeError\<close>.
\<close>

fun checkformat :: "string list \<Rightarrow> string list option \<Rightarrow> error option" where
  "checkformat [] fieldnames = None"
| "checkformat (csvkey # csvkeys) None = Some TypeError"
| "checkformat (csvkey # csvkeys) (Some fieldnames) =
     (if csvkey \<notin> set fieldnames then Some FormatError
      else checkformat csvkeys (Some fieldnames))"

text \<open>
  The body of the loop of \<open>parse\<close> over the rows that \<open>csv.DictReader\<close> yields. A row maps
  the field names to a \<open>str\<close>, or to \<open>None\<close> where the line was short, and, last, the key
  \<open>None\<close> to the cells beyond the header where the line was long. With the extra fields
  every key left in the row is copied, the key \<open>None\<close> too. \<open>take_key\<close> is the body of
  the loop over \<open>self.keyslist\<close>.
\<close>

definition take_key ::
  "(string \<times> string) list \<Rightarrow> string \<Rightarrow> raw_entry \<times> raw_entry \<Rightarrow> raw_entry \<times> raw_entry" where
  "take_key keys key = (\<lambda>(entry, row).
     (let (v, row) = e_pop (od_get keys key '''') None row
      in (e_set key v entry, row)))"

definition row_entry :: "(string \<times> string) list \<Rightarrow> bool \<Rightarrow> raw_entry \<Rightarrow> raw_entry" where
  "row_entry keys all row =
     (let (entry, row) = fold (take_key keys) keyslist (([], None), row)
      in if all
         then (let entry = fold (\<lambda>(col, v) entry. e_set col v entry) (fst row) entry
               in (case snd row of None \<Rightarrow> entry | Some cells \<Rightarrow> (fst entry, Some cells)))
         else entry)"

text \<open>
  \<open>parse\<close> returns the exception it raised, if any, and \<open>self.data\<close> as it is then. A
  source without a first row has no rows either.
\<close>

definition parse ::
  "(string \<times> string) list \<Rightarrow> bool \<Rightarrow> string list option \<Rightarrow> raw_entry list \<Rightarrow>
     raw_entry list \<Rightarrow> error option \<times> raw_entry list" where
  "parse keys all fieldnames rows data =
     (case checkformat (map snd keys) fieldnames of
        Some e \<Rightarrow> (Some e, data)
      | None \<Rightarrow> (None, data @ map (row_entry keys all) rows))"

text \<open>The key tables of two of the managers.\<close>

definition OnePassword_keys :: "(string \<times> string) list" where
  "OnePassword_keys = [(''title'', ''Title''), (''password'', ''Password''),
     (''login'', ''Username''), (''url'', ''URL''), (''comments'', ''Notes''),
     (''group'', ''Type'')]"

definition PasswordExporter_keys :: "(string \<times> string) list" where
  "PasswordExporter_keys = [(''title'', ''hostname''), (''password'', ''password''),
     (''login'', ''username'')]"

section \<open>PasswordManagerPIF\<close>

















section \<open>Reading the canonical lines back\<close>

text \<open>
  The repository writes the canonical lines and never reads them. The reader below follows
  the words of the specification: the text is split into lines, the first line is the
  password, and every later line is split at its first \<open>': '\<close> into a key and a value.
\<close>

fun spec_split_lines :: "string \<Rightarrow> string list" where
  "spec_split_lines [] = [[]]"
| "spec_split_lines (c # cs) =
     (if c = nl then [] # spec_split_lines cs
      else (case spec_split_lines cs of [] \<Rightarrow> [[c]] | l # ls \<Rightarrow> (c # l) # ls))"

fun spec_split_kv :: "string \<Rightarrow> (string \<times> string) option" where
  "spec_split_kv [] = None"
| "spec_split_kv (c # cs) =
     (if take 2 (c # cs) = '': '' then Some ([], drop 1 cs)
      else map_option (\<lambda>(k, v). (c # k, v)) (spec_split_kv cs))"

definition spec_read_password :: "string \<Rightarrow> string" where
  "spec_read_password text = hd (spec_split_lines text)"

definition spec_read_field :: "string \<Rightarrow> string \<Rightarrow> string option" where
  "spec_read_field key text = map_of (List.map_filter spec_split_kv (tl (spec_split_lines text))) key"

text \<open>
  The clean transliteration as the specification lists it: the trimmed string goes through
  six replacements in order.
\<close>

definition spec_clean_cmdline :: "string \<Rightarrow> string" where
  "spec_clean_cmdline s =
     replace '']'' '''' (replace ''['' '''' (replace [CHR 0x27] '''' (replace ''@'' ''At''
       (replace ''&'' ''and'' (replace '' '' ''_'' (strip s))))))"

text \<open>What the clean transliteration makes of one character.\<close>

definition clean_char :: "char \<Rightarrow> string" where
  "clean_char c =
     (if c = CHR '' '' then ''_''
      else if c = CHR ''&'' then ''and''
      else if c = CHR ''@'' then ''At''
      else if c = CHR 0x27 \<or> c = CHR ''['' \<or> c = CHR '']'' then ''''
      else if c = CHR ''/'' then ''-''
      else [c])"

section \<open>Example batches\<close>

text \<open>A row with a title and a password only, as \<open>parse\<close> builds its entry.\<close>

definition example_entry :: raw_entry where
  "example_entry = ([(''title'', Some ''Example''), (''password'', Some ''secret''),
     (''login'', None), (''url'', None), (''comments'', None), (''group'', None),
     (''binary'', None)], None)"

text \<open>Two of these share the title and a login that ends with \<open>-0\<close>.\<close>

definition zero_entry :: raw_entry where
  "zero_entry =
     ([(''title'', Some ''a''), (''password'', Some ''pw''), (''login'', Some ''b-0'')], None)"

text \<open>What the first pass of \<open>clean\<close> makes of two of them.\<close>

definition zero_paths :: "entry list" where
  "zero_paths = [([(''password'', ''pw''), (''login'', ''b-0''), (''path'', ''a/b-0'')], None),
                 ([(''password'', ''pw''), (''login'', ''b-0''), (''path'', ''a/b-0'')], None)]"

text \<open>
  The header of a 1Password export and three of its rows: one with the password left
  empty, one from a line that has the title only, one from a line with two cells too many.
\<close>

definition onepassword_header :: "string list" where
  "onepassword_header = [''Title'', ''Password'', ''Username'', ''URL'', ''Notes'', ''Type'']"

definition blank_row :: raw_entry where
  "blank_row = ([(''Title'', Some ''Example''), (''Password'', Some ''''),
     (''Username'', Some ''me''), (''URL'', None), (''Notes'', None), (''Type'', None)], None)"

definition blank_entry :: raw_entry where
  "blank_entry = ([(''title'', Some ''Example''), (''password'', Some ''''),
     (''login'', Some ''me''), (''url'', None), (''comments'', None), (''group'', None),
     (''binary'', None)], None)"

definition short_row :: raw_entry where
  "short_row = ([(''Title'', Some ''Example''), (''Password'', None),
     (''Username'', None), (''URL'', None), (''Notes'', None), (''Type'', None)], None)"

definition long_row :: raw_entry where
  "long_row = ([(''Title'', Some ''Example''), (''Password'', Some ''''),
     (''Username'', Some ''me''), (''URL'', Some ''''), (''Notes'', Some ''''),
     (''Type'', Some '''')], Some [''x'', ''y''])"

definition long_entry :: raw_entry where
  "long_entry = ([(''title'', Some ''Example''), (''password'', Some ''''),
     (''login'', Some ''me''), (''url'', Some ''''), (''comments'', Some ''''),
     (''group'', Some ''''), (''binary'', None)], Some [''x'', ''y''])"








definition multiline_entry :: str_dict where
  "multiline_entry = [(''password'', [CHR ''a'', nl, CHR ''b'']), (''login'', ''x'')]"

definition spaced_entry :: str_dict where
  "spaced_entry = [(''password'', ''p w''), (''login'', '' me: x ''),
     (''comments'', [CHR ''a'', nl, CHR ''b'']), (''path'', ''t'')]"

section \<open>Replacing single characters\<close>

lemma replace_single:
  "replace [c] new s = concat (map (\<lambda>x. if x = c then new else [x]) s)"
  by (induction s) (simp_all add: replace_def)

lemma replace_absent: "c \<notin> set s \<Longrightarrow> replace [c] new s = s"
  by (induction s) (auto simp: replace_single)

lemma set_replace_single: "set (replace [c] new s) \<subseteq> (set s - {c}) \<union> set new"
  by (induction s) (auto simp: replace_single)

lemma replaces_snoc: "replaces (tbl @ [(k, v)]) s = replace k v (replaces tbl s)"
  by (simp add: replaces_def)

text \<open>A table of single characters leaves a string without these characters as it is.\<close>

lemma replaces_absent:
  assumes "\<forall>(k, v) \<in> set tbl. \<exists>c. k = [c] \<and> c \<notin> set s"
  shows "replaces tbl s = s"
  using assms
proof (induction tbl rule: rev_induct)
  case Nil
  show ?case by (simp add: replaces_def)
next
  case (snoc x tbl)
  obtain k v where x: "x = (k, v)" by (cases x)
  from snoc.prems x obtain c where c: "k = [c]" "c \<notin> set s" by auto
  from snoc have "replaces tbl s = s" by auto
  with x c show ?case by (simp add: replaces_snoc replace_absent)
qed

text \<open>
  When no replacement text contains a character of the table, the result contains none of
  them either.
\<close>

lemma replaces_avoids:
  assumes "\<forall>(k, v) \<in> set tbl. \<exists>c. k = [c] \<and> c \<in> K \<and> set v \<inter> K = {}"
  shows "\<forall>(k, v) \<in> set tbl. set k \<inter> set (replaces tbl s) = {}"
  using assms
proof (induction tbl rule: rev_induct)
  case Nil
  show ?case by simp
next
  case (snoc x tbl)
  obtain k v where x: "x = (k, v)" by (cases x)
  from snoc.prems x obtain c where c: "k = [c]" "c \<in> K" "set v \<inter> K = {}" by auto
  have ih: "\<forall>(k', v') \<in> set tbl. set k' \<inter> set (replaces tbl s) = {}"
    using snoc by auto
  have keysK: "\<forall>(k', v') \<in> set (tbl @ [x]). set k' \<subseteq> K"
    using snoc.prems by fastforce
  have sub: "set (replaces (tbl @ [x]) s) \<subseteq> (set (replaces tbl s) - {c}) \<union> set v"
    using x c by (simp add: replaces_snoc set_replace_single)
  show ?case
  proof (clarify)
    fix k' v' assume kv: "(k', v') \<in> set (tbl @ [x])"
    show "set k' \<inter> set (replaces (tbl @ [x]) s) = {}"
    proof (cases "(k', v') = x")
      case True
      with x c sub show ?thesis by auto
    next
      case False
      with kv have "(k', v') \<in> set tbl" by simp
      with ih have "set k' \<inter> set (replaces tbl s) = {}" by auto
      moreover from keysK kv have "set k' \<subseteq> K" by blast
      ultimately show ?thesis using sub c by blast
    qed
  qed
qed

lemma replaces_idem:
  assumes "\<forall>(k, v) \<in> set tbl. \<exists>c. k = [c] \<and> c \<in> K \<and> set v \<inter> K = {}"
    and "set t \<subseteq> set (replaces tbl s)"
  shows "replaces tbl t = t"
proof (rule replaces_absent, clarify)
  fix k v assume kv: "(k, v) \<in> set tbl"
  with assms(1) obtain c where c: "k = [c]" by fastforce
  from replaces_avoids[OF assms(1), of s] kv have "set k \<inter> set (replaces tbl s) = {}"
    by blast
  with c assms(2) show "\<exists>c. k = [c] \<and> c \<notin> set t" by auto
qed

lemma set_strip: "set (strip s) \<subseteq> set s"
  by (auto simp: strip_def dest!: set_dropWhileD)

lemma cleans_singles:
  "\<forall>(k, v) \<in> set cleans. \<exists>c. k = [c] \<and> c \<in> set (concat (map fst cleans)) \<and>
      set v \<inter> set (concat (map fst cleans)) = {}"
  by (simp add: cleans_def)

lemma convert_singles:
  assumes "set sep \<inter> set (concat invalids) = {}"
  shows "\<forall>(k, v) \<in> set (zip invalids (replicate (length invalids) sep)).
            \<exists>c. k = [c] \<and> c \<in> set (concat invalids) \<and> set v \<inter> set (concat invalids) = {}"
  using assms by (simp add: invalids_def)

lemma convert_idem:
  "set sep \<inter> set (concat invalids) = {} \<Longrightarrow> convert sep (convert sep s) = convert sep s"
  unfolding convert_def by (rule replaces_idem[OF convert_singles]) auto

lemma clean_twice: "clean_cmdline (clean_cmdline s) = strip (clean_cmdline s)"
  unfolding clean_cmdline_def
  by (rule replaces_idem[OF cleans_singles, where s = "strip s"]) (rule set_strip)

lemma replaces_cleans_Cons: "replaces cleans (c # t) = clean_char c @ replaces cleans t"
  by (simp add: replaces_def cleans_def replace_single clean_char_def)

lemma replaces_cleans_charwise: "replaces cleans t = concat (map clean_char t)"
  by (induction t) (simp_all add: replaces_cleans_Cons, simp add: replaces_def cleans_def replace_def)

lemma clean_chain: "clean_cmdline s = replace ''/'' ''-'' (spec_clean_cmdline s)"
  by (simp add: clean_cmdline_def spec_clean_cmdline_def replaces_def cleans_def)

section \<open>The transliterations\<close>

text \<open>
  Claim C5, as first stated: for every input string, \<open>_clean_cmdline\<close> applied twice gives
  what it gives applied once, and so does \<open>_convert\<close>. It fails: the clean transliteration
  trims before it removes the brackets, so \<open>[<tab>]\<close> becomes a tab and the second pass
  trims that away; and a separator that holds an invalid character is replaced again.
\<close>

theorem transliteration_twice_counterexample:
  "clean_cmdline (clean_cmdline [CHR ''['', CHR 0x09, CHR '']'']) \<noteq>
     clean_cmdline [CHR ''['', CHR 0x09, CHR '']''] \<and>
   convert ''<<'' (convert ''<<'' ''<'') \<noteq> convert ''<<'' ''<''"
  by code_simp

text \<open>
  Claim C5, amended: \<open>_convert\<close> applied twice gives what it gives applied once whenever
  the separator holds none of the invalid characters, as the default \<open>-\<close>; and
  \<open>_clean_cmdline\<close> applied twice gives what it gives applied once, trimmed again, so the
  two agree exactly when the cleaned string neither starts nor ends with whitespace.
\<close>

theorem transliteration_twice:
  "(set sep \<inter> set (concat invalids) = {} \<longrightarrow> convert sep (convert sep s) = convert sep s) \<and>
   clean_cmdline (clean_cmdline s) = strip (clean_cmdline s)"
  by (simp add: convert_idem clean_twice)

theorem transliteration_twice_witness:
  "set ''-'' \<inter> set (concat invalids) = {} \<and>
   convert ''-'' (convert ''-'' ''a<b/c'') = convert ''-'' ''a<b/c'' \<and>
   clean_cmdline (clean_cmdline '' a b&c '') = strip (clean_cmdline '' a b&c '')"
  using transliteration_twice[of "''-''" "''a<b/c''"] transliteration_twice[of "''-''" "'' a b&c ''"]
  by (simp add: invalids_def)

text \<open>
  Claim C6, as first stated: \<open>_clean_cmdline\<close> is the trimming followed by the six
  replacements of the specification, every other character, the slash too, staying as it
  is. It fails on a slash: the table \<open>cleans\<close> ends with the slash, replaced by a hyphen.
\<close>

theorem clean_cmdline_slash_counterexample:
  "clean_cmdline ''a/b'' \<noteq> spec_clean_cmdline ''a/b''"
  by code_simp

text \<open>
  Claim C6, amended: \<open>_clean_cmdline\<close> is the trimming followed by the six replacements
  of the specification and then by the replacement of the slash by a hyphen; this is the
  same as replacing each character of the trimmed string on its own, every character
  outside the table staying as it is.
\<close>

theorem clean_cmdline_table:
  "clean_cmdline s = replace ''/'' ''-'' (spec_clean_cmdline s) \<and>
   clean_cmdline s = concat (map clean_char (strip s))"
proof (intro conjI)
  show "clean_cmdline s = replace ''/'' ''-'' (spec_clean_cmdline s)"
    by (rule clean_chain)
  show "clean_cmdline s = concat (map clean_char (strip s))"
    by (simp add: clean_cmdline_def replaces_cleans_charwise)
qed

theorem clean_cmdline_table_witness:
  "clean_cmdline ''  a b/c & d@e  '' = ''a_b-c_and_dAte'' \<and>
   replace ''/'' ''-'' (spec_clean_cmdline ''  a b/c & d@e  '') = ''a_b-c_and_dAte'' \<and>
   concat (map clean_char (strip ''  a b/c & d@e  '')) = ''a_b-c_and_dAte''"
  using clean_cmdline_table[of "''  a b/c & d@e  ''"]
  by (simp add: spec_clean_cmdline_def strip_def isspace_def replace_def clean_char_def)

section \<open>Dictionary facts\<close>

lemma od_has_od_set: "od_has k (od_set k' v d) \<longleftrightarrow> k = k' \<or> od_has k d"
  by (auto simp: od_has_def od_set_def dom_update)

lemma od_has_delete: "od_has k (AList.delete k' d) \<longleftrightarrow> k \<noteq> k' \<and> od_has k d"
  by (auto simp: od_has_def delete_keys)



lemma e_has_e_set: "e_has k (e_set k' v entry) \<longleftrightarrow> k = k' \<or> e_has k entry"
  by (simp add: e_has_def e_set_def od_has_od_set)

lemma path_of_e_set: "path_of (e_set ''path'' p entry) = p"
  by (simp add: path_of_def e_get_def e_set_def od_get_def od_set_def update_conv')

section \<open>The canonical lines\<close>

lemma lines_od_set_path:
  "concat (map line (AList.update ''path'' p d)) = concat (map line d)"
  by (induction d) auto

lemma lines_delete_path:
  "concat (map line (AList.delete ''path'' d)) = concat (map line d)"
  by (induction d) auto

lemma get_od_set_path: "fst (get (od_set ''path'' p entry)) = fst (get entry)"
proof -
  have "od_get (AList.update ''path'' p entry) ''password'' '''' = od_get entry ''password'' ''''"
    by (simp add: od_get_def update_conv')
  moreover have "AList.delete ''password'' (AList.update ''path'' p entry) =
      AList.update ''path'' p (AList.delete ''password'' entry)"
    by (simp add: delete_update)
  ultimately show ?thesis
    by (simp add: get_def od_pop_def od_set_def lines_od_set_path)
qed

lemma get_delete_path: "fst (get (AList.delete ''path'' entry)) = fst (get entry)"
proof -
  have "od_get (AList.delete ''path'' entry) ''password'' '''' = od_get entry ''password'' ''''"
    by (simp add: od_get_def delete_conv')
  moreover have "AList.delete ''password'' (AList.delete ''path'' entry) =
      AList.delete ''path'' (AList.delete ''password'' entry)"
    by (rule delete_twist)
  ultimately show ?thesis
    by (simp add: get_def od_pop_def lines_delete_path)
qed

text \<open>
  Claim C10: the text that \<open>get\<close> writes has no line for the key \<open>path\<close>. The text of an
  entry is the text of the entry without its path, and giving the entry another path does
  not change the text.
\<close>

theorem get_ignores_path:
  "fst (get (AList.delete ''path'' entry)) = fst (get entry) \<and>
   fst (get (od_set ''path'' p entry)) = fst (get entry)"
  by (simp add: get_od_set_path get_delete_path)

theorem get_ignores_path_witness:
  "fst (get (AList.delete ''path'' spaced_entry)) = fst (get spaced_entry) \<and>
   fst (get (od_set ''path'' ''elsewhere'' spaced_entry)) = fst (get spaced_entry)"
  using get_ignores_path[of spaced_entry "''elsewhere''"] by simp

lemma split_lines_line:
  "nl \<notin> set a \<Longrightarrow> spec_split_lines (a @ nl # b) = a # spec_split_lines b"
  by (induction a) auto

lemma split_kv_key:
  "spec_split_kv k = None \<Longrightarrow> spec_split_kv (k @ '': '' @ v) = Some (k, v)"
proof (induction k)
  case Nil
  show ?case by simp
next
  case (Cons c cs)
  from Cons.prems have no: "take 2 (c # cs) \<noteq> '': ''" and rest: "spec_split_kv cs = None"
    by (auto split: if_splits)
  from no have "take 2 (c # cs @ '': '' @ v) \<noteq> '': ''"
    by (cases cs) auto
  with Cons.IH[OF rest] show ?case by simp
qed

lemma fields_line:
  assumes "nl \<notin> set k" "nl \<notin> set v" "spec_split_kv k = None"
  shows "List.map_filter spec_split_kv (spec_split_lines ((k @ '': '' @ v @ [nl]) @ t)) =
         (k, v) # List.map_filter spec_split_kv (spec_split_lines t)"
proof -
  from assms have "nl \<notin> set (k @ '': '' @ v)" by simp
  from split_lines_line[OF this, of t]
  have "spec_split_lines ((k @ '': '' @ v @ [nl]) @ t) = (k @ '': '' @ v) # spec_split_lines t"
    by simp
  with split_kv_key[OF assms(3), of v] show ?thesis
    by (simp add: List.map_filter_def)
qed

text \<open>The first line for the key \<open>login\<close> is the line of the entry's login.\<close>

lemma login_line:
  assumes "map_of entry ''login'' = Some l" and "nl \<notin> set l"
    and "\<forall>(k, v) \<in> set (takeWhile (\<lambda>(k, v). k \<noteq> ''login'') entry).
            nl \<notin> set k \<and> nl \<notin> set v \<and> spec_split_kv k = None"
  shows "map_of (List.map_filter spec_split_kv
           (spec_split_lines (concat (map line (AList.delete ''password'' entry))))) ''login'' =
         Some l"
  using assms
proof (induction entry)
  case Nil
  then show ?case by simp
next
  case (Cons kv entry)
  obtain k v where kv: "kv = (k, v)" by (cases kv)
  show ?case
  proof (cases "k = ''login''")
    case True
    with Cons.prems kv have v: "v = l" by simp
    have "nl \<notin> set ''login''" "spec_split_kv ''login'' = None" by simp_all
    from fields_line[OF this(1) Cons.prems(2) this(2)] kv True v
    show ?thesis by simp
  next
    case False
    with Cons.prems kv have m: "map_of entry ''login'' = Some l"
      and ok: "nl \<notin> set k" "nl \<notin> set v" "spec_split_kv k = None"
      and rest: "\<forall>(k, v) \<in> set (takeWhile (\<lambda>(k, v). k \<noteq> ''login'') entry).
            nl \<notin> set k \<and> nl \<notin> set v \<and> spec_split_kv k = None"
      by auto
    note IH = Cons.IH[OF m Cons.prems(2) rest]
    show ?thesis
    proof (cases "k = ''password'' \<or> k = ''path''")
      case True
      with IH kv show ?thesis by auto
    next
      case False
      with fields_line[OF ok] IH kv \<open>k \<noteq> ''login''\<close> show ?thesis by simp
    qed
  qed
qed

text \<open>
  Claim C9, as first stated: for every entry with any string values, reading the text of
  \<open>get\<close> back gives the password and the login as they were. It fails for a password with
  a line feed in it: the first line is only the part before the line feed.
\<close>

theorem get_roundtrip_counterexample:
  "spec_read_password (fst (get multiline_entry)) \<noteq> od_get multiline_entry ''password'' ''''"
  by code_simp

text \<open>
  Claim C9, amended: when the password and the login hold no line feed, and the keys and
  values of the entry before the login hold no line feed and these keys no \<open>': '\<close>, then
  reading the text of \<open>get\<close> back (the first line, and the value of the first later line
  whose key is \<open>login\<close>) gives the password and the login as they were, spaces and tabs
  included. What comes after the login may hold anything.
\<close>

theorem get_roundtrip:
  assumes "map_of entry ''login'' = Some l" and "nl \<notin> set l"
    and "nl \<notin> set (od_get entry ''password'' '''')"
    and "\<forall>(k, v) \<in> set (takeWhile (\<lambda>(k, v). k \<noteq> ''login'') entry).
            nl \<notin> set k \<and> nl \<notin> set v \<and> spec_split_kv k = None"
  shows "spec_read_password (fst (get entry)) = od_get entry ''password'' '''' \<and>
         spec_read_field ''login'' (fst (get entry)) = Some l"
proof -
  have "spec_split_lines (fst (get entry)) =
          od_get entry ''password'' '''' #
            spec_split_lines (concat (map line (AList.delete ''password'' entry)))"
    using split_lines_line[OF assms(3)] by (simp add: get_def od_pop_def)
  with login_line[OF assms(1,2,4)] show ?thesis
    by (simp add: spec_read_password_def spec_read_field_def)
qed

theorem get_roundtrip_witness:
  "map_of spaced_entry ''login'' = Some '' me: x '' \<and>
   nl \<notin> set '' me: x '' \<and> nl \<notin> set (od_get spaced_entry ''password'' '''') \<and>
   takeWhile (\<lambda>(k, v). k \<noteq> ''login'') spaced_entry = [(''password'', ''p w'')] \<and>
   spec_split_kv ''password'' = None \<and>
   spec_read_password (fst (get spaced_entry)) = ''p w'' \<and>
   spec_read_field ''login'' (fst (get spaced_entry)) = Some '' me: x ''"
  using get_roundtrip[of spaced_entry "'' me: x ''"]
  by (simp add: spaced_entry_def od_get_def)

section \<open>Parsing a CSV export\<close>

lemma checkformat_missing:
  "csvkey \<in> set csvkeys \<Longrightarrow> csvkey \<notin> set fieldnames \<Longrightarrow>
     checkformat csvkeys (Some fieldnames) = Some FormatError"
  by (induction csvkeys) auto

lemma checkformat_no_header: "csvkeys \<noteq> [] \<Longrightarrow> checkformat csvkeys None = Some TypeError"
  by (cases csvkeys) simp_all

text \<open>
  Claim C8: when the header lacks one of the columns of the manager's key table, \<open>parse\<close>
  raises \<open>FormatError\<close> and \<open>self.data\<close> is what it was before the call. This holds for a
  source that has a header. A source without a first row, an empty file, lacks every
  column as well, and there \<open>parse\<close> raises \<open>TypeError\<close>, which the caller does not catch;
  \<open>self.data\<close> is unchanged there too.
\<close>

theorem parse_format_check:
  "(csvkey \<in> set (map snd keys) \<and> csvkey \<notin> set fieldnames \<longrightarrow>
      parse keys all (Some fieldnames) rows data = (Some FormatError, data)) \<and>
   (keys \<noteq> [] \<longrightarrow> parse keys all None rows data = (Some TypeError, data))"
  using checkformat_missing[of csvkey "map snd keys" fieldnames]
    checkformat_no_header[of "map snd keys"]
  by (simp add: parse_def)

theorem parse_format_check_witness:
  "''hostname'' \<in> set (map snd PasswordExporter_keys) \<and>
   ''hostname'' \<notin> set onepassword_header \<and>
   parse PasswordExporter_keys False (Some onepassword_header) [blank_row] [example_entry] =
     (Some FormatError, [example_entry]) \<and>
   PasswordExporter_keys \<noteq> [] \<and>
   parse PasswordExporter_keys False None [] [example_entry] = (Some TypeError, [example_entry])"
proof -
  have h: "''hostname'' \<in> set (map snd PasswordExporter_keys)"
    "''hostname'' \<notin> set onepassword_header" "PasswordExporter_keys \<noteq> []"
    by (simp_all add: PasswordExporter_keys_def onepassword_header_def)
  from parse_format_check[of "''hostname''" PasswordExporter_keys onepassword_header False
      "[blank_row]" "[example_entry]"]
    parse_format_check[of "''hostname''" PasswordExporter_keys onepassword_header False
      "[]" "[example_entry]"] h
  show ?thesis by simp
qed

lemma fold_e_set_has:
  "e_has k (fold (\<lambda>(col, v) entry. e_set col v entry) row entry) \<longleftrightarrow>
     e_has k entry \<or> k \<in> fst ` set row"
  by (induction row arbitrary: entry) (auto simp: e_has_e_set)

lemma fold_e_set_other:
  "k \<notin> fst ` set row \<Longrightarrow>
     map_of (fst (fold (\<lambda>(col, v) entry. e_set col v entry) row entry)) k = map_of (fst entry) k"
  by (induction row arbitrary: entry) (auto simp: e_set_def od_set_def update_conv')

lemma take_key_step:
  "take_key keys key (entry, row) =
     (e_set key (od_get (fst row) (od_get keys key '''') None) entry,
      (AList.delete (od_get keys key '''') (fst row), snd row))"
  by (simp add: take_key_def e_pop_def)

lemma take_keys_left:
  "fold (take_key keys) ks (entry, row) = (e, r) \<Longrightarrow>
     (od_has k (fst r) \<longleftrightarrow> od_has k (fst row) \<and> k \<notin> (\<lambda>key. od_get keys key '''') ` set ks) \<and>
     snd r = snd row"
proof (induction ks arbitrary: entry row)
  case Nil
  then show ?case by simp
next
  case (Cons key ks)
  from Cons.prems have "fold (take_key keys) ks
      (e_set key (od_get (fst row) (od_get keys key '''') None) entry,
       (AList.delete (od_get keys key '''') (fst row), snd row)) = (e, r)"
    by (simp add: take_key_step)
  from Cons.IH[OF this] show ?case by (auto simp: od_has_delete)
qed

lemma take_keys_other:
  "fold (take_key keys) ks (entry, row) = (e, r) \<Longrightarrow> k \<notin> set ks \<Longrightarrow>
     map_of (fst e) k = map_of (fst entry) k"
proof (induction ks arbitrary: entry row)
  case Nil
  then show ?case by simp
next
  case (Cons key ks)
  from Cons.prems(1) have "fold (take_key keys) ks
      (e_set key (od_get (fst row) (od_get keys key '''') None) entry,
       (AList.delete (od_get keys key '''') (fst row), snd row)) = (e, r)"
    by (simp add: take_key_step)
  from Cons.IH[OF this] Cons.prems(2) show ?case
    by (simp add: e_set_def od_set_def update_conv')
qed

lemma take_keys_password:
  assumes "fold (take_key keys) keyslist (([], None), row) = (e, r)"
    and "od_get keys ''title'' '''' \<noteq> od_get keys ''password'' ''''"
  shows "map_of (fst e) ''password'' = Some (e_get row (od_get keys ''password'' '''') None)"
proof -
  let ?e2 = "e_set ''password''
      (od_get (AList.delete (od_get keys ''title'' '''') (fst row)) (od_get keys ''password'' '''') None)
      (e_set ''title'' (od_get (fst row) (od_get keys ''title'' '''') None) (([], None) :: raw_entry))"
  let ?r2 = "(AList.delete (od_get keys ''password'' '''')
               (AList.delete (od_get keys ''title'' '''') (fst row)), snd row)"
  have "fold (take_key keys) [''login'', ''url'', ''comments'', ''group'', ''binary''] (?e2, ?r2) = (e, r)"
    using assms(1) by (simp add: keyslist_def take_key_step)
  from take_keys_other[OF this, of "''password''"]
  have "map_of (fst e) ''password'' = map_of (fst ?e2) ''password''" by simp
  also have "\<dots> = Some (od_get (AList.delete (od_get keys ''title'' '''') (fst row))
                       (od_get keys ''password'' '''') None)"
    by (simp add: e_set_def od_set_def update_conv')
  also have "od_get (AList.delete (od_get keys ''title'' '''') (fst row))
                       (od_get keys ''password'' '''') None =
             e_get row (od_get keys ''password'' '''') None"
    using assms(2) by (simp add: e_get_def od_get_def[of "AList.delete _ _"] od_get_def[of "fst row"])
  finally show ?thesis .
qed

lemma take_keys_has:
  "e_has k (fst (fold (take_key keys) ks (entry, row))) \<longleftrightarrow> e_has k entry \<or> k \<in> set ks"
  by (induction ks arbitrary: entry row) (auto simp: e_has_e_set take_key_step)

lemma row_entry_has:
  assumes "k \<in> set keyslist"
  shows "e_has k (row_entry keys all row)"
proof -
  obtain e r where er: "fold (take_key keys) keyslist (([], None), row) = (e, r)"
    by (cases "fold (take_key keys) keyslist (([], None), row)") blast
  from take_keys_has[of k keys keyslist "([], None)" row] er assms
  have e: "e_has k e" by simp
  then have "e_has k (fold (\<lambda>(col, v) entry. e_set col v entry) (fst r) e)"
    by (simp add: fold_e_set_has)
  then have "e_has k (case snd r of None \<Rightarrow> fold (\<lambda>(col, v) entry. e_set col v entry) (fst r) e
       | Some cells \<Rightarrow> (fst (fold (\<lambda>(col, v) entry. e_set col v entry) (fst r) e), Some cells))"
    by (simp add: e_has_def split: option.splits)
  with e er show ?thesis by (simp add: row_entry_def Let_def)
qed

lemma row_entry_password:
  assumes "od_get keys ''title'' '''' \<noteq> od_get keys ''password'' ''''"
    and "all \<longrightarrow> \<not> e_has ''password'' row \<or>
           ''password'' \<in> (\<lambda>key. od_get keys key '''') ` set keyslist"
  shows "map_of (fst (row_entry keys all row)) ''password'' =
           Some (e_get row (od_get keys ''password'' '''') None)"
proof -
  obtain e r where er: "fold (take_key keys) keyslist (([], None), row) = (e, r)"
    by (cases "fold (take_key keys) keyslist (([], None), row)") blast
  from take_keys_password[OF er assms(1)]
  have v: "map_of (fst e) ''password'' = Some (e_get row (od_get keys ''password'' '''') None)" .
  show ?thesis
  proof (cases all)
    case False
    with er v show ?thesis by (simp add: row_entry_def)
  next
    case True
    with assms(2) take_keys_left[OF er, of "''password''"]
    have "\<not> od_has ''password'' (fst r)"
      by (auto simp: e_has_def)
    then have "''password'' \<notin> fst ` set (fst r)"
      by (simp add: od_has_def)
    from fold_e_set_other[OF this, of e] v True er show ?thesis
      by (simp add: row_entry_def Let_def split: option.splits)
  qed
qed

lemma e_has_remove_unused:
  "e_has k (remove_unused entry) \<longleftrightarrow> (\<exists>s. (k, Some s) \<in> set (fst entry) \<and> s \<noteq> [])"
  by (force simp: e_has_def od_has_def remove_unused_def List.map_filter_def
        split: option.splits if_splits)

lemma rest_remove_unused:
  "snd (remove_unused entry) = (if snd entry = Some [] then None else snd entry)"
  by (simp add: remove_unused_def split: option.splits)

text \<open>
  Claim C3, as first stated: the key \<open>password\<close> is there after parsing, with the empty
  string when the source has none, and an empty password stays through the removal of
  the empty fields in \<open>clean\<close>. It fails on both counts: for a line that ends after the
  title the entry holds \<open>None\<close> under \<open>password\<close>, not the empty string; and the removal
  takes every key with a falsy value, the password too.
\<close>

theorem password_key_counterexample:
  "map_of (fst (row_entry OnePassword_keys False short_row)) ''password'' \<noteq> Some (Some '''') \<and>
   \<not> e_has ''password'' (clean_entry ''-'' False False blank_entry)"
  by code_simp

text \<open>
  Claim C3, amended: after \<open>parse\<close> of a CSV export every new entry has the key
  \<open>password\<close>. Its value is what the row holds under the native column of the password,
  a \<open>str\<close>, or \<open>None\<close> where the row gives no value, never a default; this is so when
  the title has another native column and, with the extra fields, no column left in the
  row is itself named \<open>password\<close>. The removal that opens \<open>clean\<close>, before any path is
  made, keeps a string key exactly when its value is a non-empty string, so an empty
  password goes like any other empty field, and it keeps the cells beyond the header that
  the extra fields brought under the key \<open>None\<close>.
\<close>

theorem password_key:
  "(parse keys all fieldnames rows data = (None, data') \<longrightarrow>
      (\<exists>new. data' = data @ new \<and> length new = length rows \<and>
         (\<forall>entry \<in> set new. e_has ''password'' entry))) \<and>
   (od_get keys ''title'' '''' \<noteq> od_get keys ''password'' '''' \<and>
    (all \<longrightarrow> \<not> e_has ''password'' row \<or>
       ''password'' \<in> (\<lambda>key. od_get keys key '''') ` set keyslist) \<longrightarrow>
      map_of (fst (row_entry keys all row)) ''password'' =
        Some (e_get row (od_get keys ''password'' '''') None)) \<and>
   (\<forall>k. e_has k (remove_unused entry) \<longleftrightarrow> (\<exists>s. (k, Some s) \<in> set (fst entry) \<and> s \<noteq> [])) \<and>
   snd (remove_unused entry) = (if snd entry = Some [] then None else snd entry)"
proof -
  have "e_has ''password'' (row_entry keys all row)" for row
    by (rule row_entry_has) (simp add: keyslist_def)
  then have "parse keys all fieldnames rows data = (None, data') \<longrightarrow>
      (\<exists>new. data' = data @ new \<and> length new = length rows \<and>
         (\<forall>entry \<in> set new. e_has ''password'' entry))"
    by (auto simp: parse_def split: option.splits)
  then show ?thesis
    using row_entry_password[of keys all row] e_has_remove_unused[of _ entry]
      rest_remove_unused[of entry]
    by blast
qed

theorem password_key_witness:
  "parse OnePassword_keys True (Some onepassword_header) [long_row] [] = (None, [long_entry]) \<and>
   e_has ''password'' long_entry \<and>
   map_of (fst (row_entry OnePassword_keys True short_row)) ''password'' = Some None \<and>
   e_has ''login'' (remove_unused long_entry) \<and>
   \<not> e_has ''password'' (remove_unused long_entry) \<and>
   snd (remove_unused long_entry) = Some [''x'', ''y'']"
proof -
  have h: "parse OnePassword_keys True (Some onepassword_header) [long_row] [] =
             (None, [long_entry])"
    by code_simp
  have k: "od_get OnePassword_keys ''title'' '''' \<noteq> od_get OnePassword_keys ''password'' ''''"
    "\<not> e_has ''password'' short_row"
    "e_get short_row (od_get OnePassword_keys ''password'' '''') None = None"
    by code_simp+
  have e: "(''login'', Some ''me'') \<in> set (fst long_entry)"
    "\<not> (\<exists>s. (''password'', Some s) \<in> set (fst long_entry) \<and> s \<noteq> [])"
    "snd long_entry = Some [''x'', ''y'']"
    by (auto simp: long_entry_def)
  from password_key[of OnePassword_keys True "Some onepassword_header" "[long_row]" "[]"
      "[long_entry]" short_row long_entry] h k e
  show ?thesis by auto
qed

section \<open>Parsing a PIF export\<close>


















section \<open>The two passes over the paths\<close>

text \<open>The indices of the groups are indices of the batch, so \<open>self.data[idx]\<close> is there.\<close>

lemma group_step_bound:
  assumes "\<forall>(p, idxs) \<in> set d. \<forall>i \<in> set idxs. i < n" and "idx < n"
  shows "\<forall>(p, idxs) \<in> set (od_set k (od_get d k [] @ [idx]) d). \<forall>i \<in> set idxs. i < n"
proof -
  have "\<forall>i \<in> set (od_get d k []). i < n"
  proof (cases "map_of d k")
    case None
    then show ?thesis by (simp add: od_get_def)
  next
    case (Some idxs)
    then have "(k, idxs) \<in> set d" by (rule map_of_SomeD)
    with assms(1) Some show ?thesis by (auto simp: od_get_def)
  qed
  moreover have "set (AList.update k v d) \<subseteq> insert (k, v) (set d)" for v
    by (induction d) auto
  ultimately show ?thesis using assms by (fastforce simp: od_set_def)
qed

lemma groups_bound:
  assumes "\<forall>(p, idxs) \<in> set d. \<forall>i \<in> set idxs. i < n"
  shows "\<forall>(p, idxs) \<in> set (fold (\<lambda>(idx, entry) d.
            od_set (path_of entry) (od_get d (path_of entry) [] @ [idx]) d) (enumerate n data) d).
           \<forall>i \<in> set idxs. i < n + length data"
  using assms
proof (induction data arbitrary: n d)
  case Nil
  then show ?case by simp
next
  case (Cons entry data)
  have "\<forall>(p, idxs) \<in> set d. \<forall>i \<in> set idxs. i < Suc n"
    using Cons.prems by fastforce
  from group_step_bound[OF this, of n "path_of entry"]
  have "\<forall>(p, idxs) \<in> set (od_set (path_of entry) (od_get d (path_of entry) [] @ [n]) d).
          \<forall>i \<in> set idxs. i < Suc n" by simp
  from Cons.IH[OF this] show ?case by simp
qed

lemma duplicated_in_range:
  "(path, idxs) \<in> set (duplicated data) \<Longrightarrow> i \<in> set idxs \<Longrightarrow> i < length data"
  using groups_bound[of "[]" 0 data] by (fastforce simp: duplicated_def)

lemma renew_path_keeps:
  assumes "\<forall>entry \<in> set data. e_has ''path'' entry"
  shows "length (renew_path sep cl cv path idx data) = length data \<and>
         (\<forall>entry \<in> set (renew_path sep cl cv path idx data). e_has ''path'' entry)"
proof -
  obtain p entry where c: "create_path sep cl cv (data ! idx) path = (p, entry)"
    by (cases "create_path sep cl cv (data ! idx) path")
  have "set (data[idx := e_set ''path'' p entry]) \<subseteq> insert (e_set ''path'' p entry) (set data)"
    by (rule set_update_subset_insert)
  with assms c show ?thesis
    by (auto simp: renew_path_def e_has_e_set)
qed

lemma renew_paths_keep:
  assumes "\<forall>entry \<in> set data. e_has ''path'' entry"
  shows "length (fold (renew_path sep cl cv path) idxs data) = length data \<and>
         (\<forall>entry \<in> set (fold (renew_path sep cl cv path) idxs data). e_has ''path'' entry)"
  using assms
proof (induction idxs arbitrary: data)
  case Nil
  then show ?case by simp
next
  case (Cons idx idxs)
  from renew_path_keeps[OF Cons.prems, of sep cl cv path idx]
  have len: "length (renew_path sep cl cv path idx data) = length data"
    and has: "\<forall>entry \<in> set (renew_path sep cl cv path idx data). e_has ''path'' entry"
    by simp_all
  from Cons.IH[OF has] len show ?case by simp
qed

lemma groups_keep:
  assumes "\<forall>entry \<in> set data. e_has ''path'' entry"
  shows "length (fold (\<lambda>(path, idxs) data.
             if length idxs > 1 then fold (renew_path sep cl cv path) idxs data else data)
           groups data) = length data \<and>
         (\<forall>entry \<in> set (fold (\<lambda>(path, idxs) data.
             if length idxs > 1 then fold (renew_path sep cl cv path) idxs data else data)
           groups data). e_has ''path'' entry)"
  using assms
proof (induction groups arbitrary: data)
  case Nil
  then show ?case by simp
next
  case (Cons g groups)
  obtain path idxs where g: "g = (path, idxs)" by (cases g)
  define data' where
    "data' = (if length idxs > 1 then fold (renew_path sep cl cv path) idxs data else data)"
  from renew_paths_keep[OF Cons.prems, of sep cl cv path idxs] Cons.prems
  have len: "length data' = length data"
    and has: "\<forall>entry \<in> set data'. e_has ''path'' entry"
    by (simp_all add: data'_def)
  from Cons.IH[OF has] len g show ?case by (simp add: data'_def)
qed

lemma duplicate_paths_keeps:
  assumes "\<forall>entry \<in> set data. e_has ''path'' entry"
  shows "length (duplicate_paths sep cl cv data) = length data \<and>
         (\<forall>entry \<in> set (duplicate_paths sep cl cv data). e_has ''path'' entry)"
  unfolding duplicate_paths_def by (rule groups_keep[OF assms])

lemma clean_entry_has_path: "e_has ''path'' (clean_entry sep cl cv entry)"
  by (simp add: clean_entry_def Let_def e_has_e_set split: prod.splits)

lemma numerise_for_keeps:
  assumes "numerise_for search sep seen data = Some out"
    and "\<forall>entry \<in> set data. e_has ''path'' entry"
  shows "length out = length data \<and> (\<forall>entry \<in> set out. e_has ''path'' entry)"
  using assms
  by (induction data arbitrary: seen out)
     (auto split: option.splits if_splits simp: Let_def e_has_e_set)

text \<open>The loop leaves with a path that is not among the seen ones.\<close>

lemma numerise_while_unseen:
  assumes "numerise_while search sep seen path ii = Some p"
  shows "p \<notin> set seen"
  by (rule numerise_while.raw_induct
        [where P = "\<lambda>search sep seen path ii p. p \<notin> set seen", OF _ assms])
     (auto split: if_splits)

lemma numerise_for_distinct:
  assumes "numerise_for search sep seen data = Some out" and "distinct seen"
  shows "distinct (seen @ map path_of out)"
  using assms
proof (induction data arbitrary: seen out)
  case Nil
  then show ?case by simp
next
  case (Cons entry rest)
  show ?case
  proof (cases "path_of entry \<in> set seen")
    case True
    with Cons.prems(1) obtain p out' where
      p: "numerise_while search sep seen (path_of entry) 1 = Some p" and
      rest: "numerise_for search sep (seen @ [p]) rest = Some out'" and
      out: "out = e_set ''path'' p entry # out'"
      by (auto split: option.splits)
    from p have "p \<notin> set seen" by (rule numerise_while_unseen)
    with Cons.prems(2) have "distinct (seen @ [p])" by simp
    from Cons.IH[OF rest this] out show ?thesis by (simp add: path_of_e_set)
  next
    case False
    with Cons.prems(1) obtain out' where
      rest: "numerise_for search sep (seen @ [path_of entry]) rest = Some out'" and
      out: "out = entry # out'"
      by auto
    from False Cons.prems(2) have "distinct (seen @ [path_of entry])" by simp
    from Cons.IH[OF rest this] out show ?thesis by simp
  qed
qed

text \<open>
  Claim C1: when \<open>clean\<close> returns, the batch has as many entries as before, every entry
  has a path, and no two entries have the same path. This holds whatever the regular
  expression of the separator matches. (That \<open>clean\<close> returns is not part of the claim;
  C4 is about it.)
\<close>

theorem clean_paths_distinct:
  assumes "clean search sep cl cv data = Some out"
  shows "length out = length data \<and> (\<forall>entry \<in> set out. e_has ''path'' entry) \<and>
         distinct (map path_of out)"
proof -
  let ?first = "map (clean_entry sep cl cv) data"
  from assms have n: "numerise_for search sep [] (duplicate_paths sep cl cv ?first) = Some out"
    by (simp add: clean_def duplicate_numerise_def)
  have "\<forall>entry \<in> set ?first. e_has ''path'' entry"
    by (simp add: clean_entry_has_path)
  from duplicate_paths_keeps[OF this, of sep cl cv]
  have len: "length (duplicate_paths sep cl cv ?first) = length data"
    and has: "\<forall>entry \<in> set (duplicate_paths sep cl cv ?first). e_has ''path'' entry"
    by simp_all
  from numerise_for_keeps[OF n has] len numerise_for_distinct[OF n]
  show ?thesis by simp
qed

theorem clean_paths_distinct_witness:
  "clean (literal_search ''-'') ''-'' False False [blank_entry, long_entry, example_entry] =
     Some [([(''login'', ''me''), (''path'', ''Example/me'')], None),
           ([(''login'', ''me''), (''path'', ''Example/me-1'')], Some [''x'', ''y'']),
           ([(''password'', ''secret''), (''path'', ''Example/notitle'')], None)] \<and>
   distinct (map path_of [([(''login'', ''me''), (''path'', ''Example/me'')], None),
           ([(''login'', ''me''), (''path'', ''Example/me-1'')], Some [''x'', ''y'']),
           ([(''password'', ''secret''), (''path'', ''Example/notitle'')], None)])"
proof -
  have h: "clean (literal_search ''-'') ''-'' False False [blank_entry, long_entry, example_entry] =
     Some [([(''login'', ''me''), (''path'', ''Example/me'')], None),
           ([(''login'', ''me''), (''path'', ''Example/me-1'')], Some [''x'', ''y'']),
           ([(''password'', ''secret''), (''path'', ''Example/notitle'')], None)]"
    by code_simp
  from clean_paths_distinct[OF h] h show ?thesis by blast
qed

lemma example_paths:
  "list_all (\<lambda>(cl, cv).
      map_option (map path_of)
        (clean (literal_search ''-'') ''-'' cl cv [example_entry, example_entry]) =
        Some [''Example/notitle'', ''Example/notitle-1''] \<and>
      map_option (map path_of)
        (clean (literal_search ''-'') ''-'' cl cv [example_entry, example_entry, example_entry]) =
        Some [''Example/notitle'', ''Example/notitle-1'', ''Example/notitle-2''])
     [(False, False), (False, True), (True, False), (True, True)]"
  by code_simp

text \<open>
  Claim C2, as first stated: two entries with the title \<open>Example\<close> and no group get the
  paths \<open>Example\<close> and \<open>Example-1\<close>. It fails: the pass over the groups of equal paths comes
  first and makes a subfolder of the shared path for each of the entries.
\<close>

theorem example_paths_counterexample:
  "map_option (map path_of)
     (clean (literal_search ''-'') ''-'' False False [example_entry, example_entry]) \<noteq>
   Some [''Example'', ''Example-1'']"
  by code_simp

text \<open>
  Claim C2, amended: two entries with the title \<open>Example\<close> and no group, login or url get,
  with the separator \<open>-\<close>, the paths \<open>Example/notitle\<close> for the first in parse order and
  \<open>Example/notitle-1\<close> for the second; a third such entry gets \<open>Example/notitle-2\<close>. The
  first one met keeps the path without a number.
\<close>

theorem example_paths_suffixed:
  "map_option (map path_of)
     (clean (literal_search ''-'') ''-'' cl cv [example_entry, example_entry]) =
     Some [''Example/notitle'', ''Example/notitle-1''] \<and>
   map_option (map path_of)
     (clean (literal_search ''-'') ''-'' cl cv [example_entry, example_entry, example_entry]) =
     Some [''Example/notitle'', ''Example/notitle-1'', ''Example/notitle-2'']"
  using example_paths by (cases cl; cases cv) simp_all

theorem example_paths_suffixed_witness:
  "map_option (map path_of)
     (clean (literal_search ''-'') ''-'' True False [example_entry, example_entry]) =
     Some [''Example/notitle'', ''Example/notitle-1'']"
  using example_paths_suffixed[of True False] by simp

text \<open>A loop that finds its path seen and is not changed by any replacement never ends.\<close>

lemma numerise_while_stuck:
  assumes "path \<in> set seen" and "search path"
    and "\<forall>j\<ge>ii. replace (sep @ str j) (sep @ str (j + 1)) path = path"
  shows "numerise_while search sep seen path ii = None"
proof (rule ccontr)
  assume "numerise_while search sep seen path ii \<noteq> None"
  then obtain y where "numerise_while search sep seen path ii = Some y" by auto
  then have "\<not> (path \<in> set seen \<and> search path \<and>
                (\<forall>j\<ge>ii. replace (sep @ str j) (sep @ str (j + 1)) path = path))"
  proof (rule numerise_while.raw_induct
        [where P = "\<lambda>search sep seen path ii y. \<not> (path \<in> set seen \<and> search path \<and>
                (\<forall>j\<ge>ii. replace (sep @ str j) (sep @ str (j + 1)) path = path))", rotated])
    fix loop :: "(string \<Rightarrow> bool) \<Rightarrow> string \<Rightarrow> string list \<Rightarrow> string \<Rightarrow> nat \<Rightarrow> string option"
    fix search sep seen path ii y
    assume IH: "\<And>search sep seen path ii y. loop search sep seen path ii = Some y \<Longrightarrow>
        \<not> (path \<in> set seen \<and> search path \<and>
                (\<forall>j\<ge>ii. replace (sep @ str j) (sep @ str (j + 1)) path = path))"
    assume body: "(if path \<in> set seen
          then if \<not> search path
               then loop search sep seen (path @ sep @ str ii) ii
               else loop search sep seen
                     (replace (sep @ str ii) (sep @ str (ii + 1)) path) (ii + 1)
          else Some path) = Some y"
    show "\<not> (path \<in> set seen \<and> search path \<and>
                (\<forall>j\<ge>ii. replace (sep @ str j) (sep @ str (j + 1)) path = path))"
    proof
      assume inv: "path \<in> set seen \<and> search path \<and>
                (\<forall>j\<ge>ii. replace (sep @ str j) (sep @ str (j + 1)) path = path)"
      then have "replace (sep @ str ii) (sep @ str (ii + 1)) path = path" by simp
      with inv body have "loop search sep seen path (ii + 1) = Some y" by simp
      moreover from inv
      have "\<forall>j\<ge>ii + 1. replace (sep @ str j) (sep @ str (j + 1)) path = path" by simp
      ultimately show False using IH inv by blast
    qed
  qed
  with assms show False by simp
qed

lemma digit_char_nonzero: "0 < n \<Longrightarrow> n < 10 \<Longrightarrow> digit_char n \<noteq> CHR ''0''"
proof -
  assume "0 < n" "n < 10"
  then have "n \<in> {1, 2, 3, 4, 5, 6, 7, 8, 9}" by auto
  then show ?thesis by (auto simp: digit_char_def)
qed

text \<open>The decimal numeral of a positive number does not start with a zero.\<close>

lemma str_leading: "0 < n \<Longrightarrow> \<exists>c cs. str n = c # cs \<and> c \<noteq> CHR ''0''"
proof (induction n rule: str.induct)
  case (1 n)
  show ?case
  proof (cases "n < 10")
    case True
    with "1.prems" show ?thesis by (simp add: str.simps digit_char_nonzero)
  next
    case False
    then have "0 < n div 10" by simp
    from "1.IH"[OF False this] obtain c cs where "str (n div 10) = c # cs" "c \<noteq> CHR ''0''"
      by auto
    with False show ?thesis by (simp add: str.simps[of n])
  qed
qed

lemma replace_zero_suffix:
  assumes "0 < j"
  shows "replace (CHR ''-'' # str j) new ''a/b-0'' = ''a/b-0''"
proof -
  from str_leading[OF assms] obtain c cs where "str j = c # cs" "c \<noteq> CHR ''0''" by auto
  then show ?thesis by (auto simp: replace_def)
qed

lemma search_zero_suffix: "literal_search ''-'' ''a/b-0''"
  by code_simp

lemma first_pass_zero:
  "duplicate_paths ''-'' False False (map (clean_entry ''-'' False False) [zero_entry, zero_entry])
     = zero_paths"
  by code_simp

lemma numerise_while_zero:
  "numerise_while (literal_search ''-'') ''-'' [''a/b-0''] ''a/b-0'' 1 = None"
  by (rule numerise_while_stuck) (simp_all add: search_zero_suffix replace_zero_suffix)

text \<open>
  Claim C4 says that the numeric suffix pass ends for every batch and every separator. It
  does not: for two entries with the path \<open>a/b-0\<close>, which the first pass of \<open>clean\<close> makes
  of two entries with the title \<open>a\<close> and the login \<open>b-0\<close>, the loop replaces \<open>-1\<close>, then
  \<open>-2\<close>, and so on, none of which is in the path, and so never leaves; \<open>clean\<close> does not
  return either.
\<close>

theorem numerise_zero_suffix_loops:
  "duplicate_numerise (literal_search ''-'') ''-'' zero_paths = None \<and>
   clean (literal_search ''-'') ''-'' False False [zero_entry, zero_entry] = None"
proof -
  have "duplicate_numerise (literal_search ''-'') ''-'' zero_paths = None"
    using numerise_while_zero
    by (simp add: duplicate_numerise_def zero_paths_def path_of_def e_get_def od_get_def)
  then show ?thesis
    unfolding clean_def first_pass_zero by simp
qed

end
